theory Spec2Isabelle
  imports Complex_Main
begin

section \<open>The S3 command of the amazon-aws extension (\<open>s3.tsx\<close>)\<close>

subsection \<open>JavaScript numbers\<close>

text \<open>
  A JavaScript number is an IEEE 754 double. \<open>Fin q\<close> is the finite double whose value is the
  rational \<open>q\<close>; the two zeros are both \<open>Fin 0\<close>. The function cannot tell them apart where
  it reads one: \<open>Math.abs\<close> and the string conversion give the same result for both, and the
  quotient that reaches \<open>toFixed\<close> is not zero (\<open>loop_positive\<close> below).
\<close>

datatype number = NaN | Infinity | NegInfinity | Fin rat

text \<open>The number of digits of a positive integer \<open>n\<close> in base \<open>b\<close>.\<close>

function digit_length :: "int \<Rightarrow> int \<Rightarrow> int" where
  "digit_length b n = (if 0 < n \<and> 1 < b then digit_length b (n div b) + 1 else 0)"
  by pat_completeness auto
termination
  by (relation "measure (\<lambda>(b, n). nat n)") (auto simp: int_div_less_self)

declare digit_length.simps [simp del]

text \<open>
  For \<open>q > 0\<close>, the integer \<open>k\<close> with \<open>b\<^sup>k \<le> q < b\<^sup>k\<^sup>+\<^sup>1\<close>: for \<open>q \<ge> 1\<close> one less than
  the number of digits of its integer part, for \<open>q < 1\<close> the least \<open>j\<close> with \<open>1 / q \<le> b\<^sup>j\<close>,
  negated.
\<close>

definition floor_log :: "int \<Rightarrow> rat \<Rightarrow> int" where
  "floor_log b q =
     (if 1 \<le> q then digit_length b \<lfloor>q\<rfloor> - 1
      else - digit_length b (\<lceil>1 / q\<rceil> - 1))"

text \<open>Rounding to the nearest integer, a tie going to the even one.\<close>

definition round_half_even :: "rat \<Rightarrow> int" where
  "round_half_even v =
     (let f = \<lfloor>v\<rfloor>; d = v - of_int f
      in if d < 1 / 2 then f else if 1 / 2 < d then f + 1 else if even f then f else f + 1)"

text \<open>
  The double nearest to a magnitude \<open>q \<ge> 0\<close>, before the check for overflow. A double has a
  significand of 53 bits, so the spacing of the doubles around \<open>q\<close> is \<open>2\<^sup>e\<close> with
  \<open>e = floor_log 2 q - 52\<close>, and never less than \<open>2\<^sup>-\<^sup>1\<^sup>0\<^sup>7\<^sup>4\<close> (the subnormal numbers).
\<close>

definition round_magnitude :: "rat \<Rightarrow> rat" where
  "round_magnitude q =
     (if q = 0 then 0
      else let e = max (floor_log 2 q - 52) (- 1074)
           in of_int (round_half_even (q / 2 powi e)) * 2 powi e)"

text \<open>
  The result of an arithmetic operation whose exact value is \<open>q\<close>: round to nearest, ties to
  even; a magnitude that rounds to \<open>2\<^sup>1\<^sup>0\<^sup>2\<^sup>4\<close> or more is an infinity.
\<close>

definition to_double :: "rat \<Rightarrow> number" where
  "to_double q =
     (let m = round_magnitude \<bar>q\<bar>
      in if 1024 \<le> floor_log 2 m then (if q < 0 then NegInfinity else Infinity)
         else Fin (if q < 0 then - m else m))"

text \<open>The decimal digits of a non-negative integer.\<close>

function digits_of :: "int \<Rightarrow> string" where
  "digits_of n =
     (if n < 10 then [''0123456789'' ! nat n]
      else digits_of (n div 10) @ [''0123456789'' ! nat (n mod 10)])"
  by pat_completeness auto
termination
  by (relation "measure nat") auto

declare digits_of.simps [simp del]

text \<open>
  \<open>Number::toString\<close> of ECMAScript for a positive finite number \<open>q\<close> chooses integers \<open>n\<close>,
  \<open>k\<close> and \<open>s\<close> with \<open>k \<ge> 1\<close>, \<open>10\<^sup>k\<^sup>-\<^sup>1 \<le> s < 10\<^sup>k\<close>, such that \<open>s \<times> 10\<^sup>n\<^sup>-\<^sup>k\<close> rounds to \<open>q\<close> and \<open>k\<close> is
  as small as possible; among several \<open>s\<close> the one whose value is closest to \<open>q\<close>, the even one
  at a tie. \<open>candidates q k\<close> are the pairs \<open>(s, n)\<close> for a given \<open>k\<close>: \<open>s \<times> 10\<^sup>n\<^sup>-\<^sup>k\<close> lies in
  \<open>[10\<^sup>n\<^sup>-\<^sup>1, 10\<^sup>n)\<close> and next to \<open>q\<close>, which leaves two values of \<open>n\<close> and, for each, the two
  integers around \<open>q / 10\<^sup>n\<^sup>-\<^sup>k\<close>.
\<close>

definition candidates :: "rat \<Rightarrow> nat \<Rightarrow> (int \<times> int) list" where
  "candidates q k =
     (let n0 = floor_log 10 q + 1
      in [(s, n). n \<leftarrow> [n0, n0 + 1],
                  s \<leftarrow> (let f = \<lfloor>q / 10 powi (n - int k)\<rfloor> in [f, f + 1]),
                  10 ^ (k - 1) \<le> s \<and> s < 10 ^ k
                    \<and> to_double (of_int s * 10 powi (n - int k)) = Fin q])"

definition distance :: "rat \<Rightarrow> nat \<Rightarrow> int \<times> int \<Rightarrow> rat" where
  "distance q k c = \<bar>of_int (fst c) * 10 powi (snd c - int k) - q\<bar>"

fun closest :: "rat \<Rightarrow> nat \<Rightarrow> (int \<times> int) list \<Rightarrow> (int \<times> int) option" where
  "closest q k [] = None"
| "closest q k (c # cs) =
     (case closest q k cs of
        None \<Rightarrow> Some c
      | Some c' \<Rightarrow>
          if distance q k c < distance q k c'
             \<or> (distance q k c = distance q k c' \<and> even (fst c))
          then Some c else Some c')"

text \<open>
  The search for the least \<open>k\<close>, from \<open>k\<close> upwards. Seventeen significant digits identify
  every double, so for a double the search ends at \<open>k \<le> 17\<close> with a candidate; the last
  branch only makes the function total on the rationals that are not doubles.
\<close>

function shortest_digits :: "rat \<Rightarrow> nat \<Rightarrow> int \<times> int \<times> nat" where
  "shortest_digits q k =
     (case closest q k (candidates q k) of
        Some (s, n) \<Rightarrow> (s, n, k)
      | None \<Rightarrow>
          if k < 17 then shortest_digits q (Suc k)
          else (\<lfloor>q / 10 powi (floor_log 10 q + 1 - int k) + 1 / 2\<rfloor>, floor_log 10 q + 1, k))"
  by pat_completeness auto
termination
  by (relation "measure (\<lambda>(q, k). 17 - k)") auto

declare shortest_digits.simps [simp del]

text \<open>The layout of the digits: plain, with a decimal point, or with an exponent.\<close>

definition ToString_positive :: "rat \<Rightarrow> string" where
  "ToString_positive q =
     (let (s, n, k) = shortest_digits q 1; ds = digits_of s; e = n - 1
      in if int k \<le> n \<and> n \<le> 21 then ds @ replicate (nat (n - int k)) CHR ''0''
         else if 0 < n \<and> n \<le> 21 then take (nat n) ds @ ''.'' @ drop (nat n) ds
         else if - 6 < n \<and> n \<le> 0 then ''0.'' @ replicate (nat (- n)) CHR ''0'' @ ds
         else (if k = 1 then ds else hd ds # ''.'' @ tl ds)
              @ ''e'' @ (if e < 0 then ''-'' else ''+'') @ digits_of \<bar>e\<bar>)"

text \<open>The conversion that \<open>bytes + " B"\<close> applies to the number.\<close>

fun ToString :: "number \<Rightarrow> string" where
  "ToString NaN = ''NaN''"
| "ToString Infinity = ''Infinity''"
| "ToString NegInfinity = ''-Infinity''"
| "ToString (Fin q) =
     (if q = 0 then ''0''
      else if q < 0 then ''-'' @ ToString_positive (- q)
      else ToString_positive q)"

text \<open>
  \<open>Number.prototype.toFixed\<close> with no argument (zero fraction digits): the sign, then the
  digits of the integer nearest to the magnitude, the larger one at a tie; a magnitude of
  \<open>10\<^sup>2\<^sup>1\<close> or more, and a number that is not finite, are converted as by \<open>ToString\<close>.
\<close>

definition toFixed :: "number \<Rightarrow> string" where
  "toFixed x =
     (case x of
        Fin q \<Rightarrow>
          (if q < 0 then ''-'' else [])
          @ (if 10 ^ 21 \<le> \<bar>q\<bar> then ToString_positive \<bar>q\<bar>
             else digits_of \<lfloor>\<bar>q\<bar> + 1 / 2\<rfloor>)
      | _ \<Rightarrow> ToString x)"

fun math_abs :: "number \<Rightarrow> number" where
  "math_abs (Fin q) = Fin \<bar>q\<bar>"
| "math_abs NaN = NaN"
| "math_abs Infinity = Infinity"
| "math_abs NegInfinity = Infinity"

text \<open>
  \<open>Math.round\<close>: the nearest integer, the larger one at a tie. The result is exact: a double
  of magnitude \<open>2\<^sup>5\<^sup>2\<close> or more is an integer already.
\<close>

fun math_round :: "number \<Rightarrow> number" where
  "math_round (Fin q) = Fin (of_int \<lfloor>q + 1 / 2\<rfloor>)"
| "math_round x = x"

text \<open>
  The comparisons and the arithmetic of the function have a finite positive constant as
  their second operand (\<open>threshold\<close> or \<open>r\<close>). Every comparison with \<open>NaN\<close> is false.
\<close>

fun num_less :: "number \<Rightarrow> rat \<Rightarrow> bool" where
  "num_less (Fin q) c = (q < c)"
| "num_less NegInfinity c = True"
| "num_less x c = False"

fun num_greater_eq :: "number \<Rightarrow> rat \<Rightarrow> bool" where
  "num_greater_eq (Fin q) c = (c \<le> q)"
| "num_greater_eq Infinity c = True"
| "num_greater_eq x c = False"

fun num_divide :: "number \<Rightarrow> rat \<Rightarrow> number" where
  "num_divide (Fin q) c = to_double (q / c)"
| "num_divide x c = x"

fun num_times :: "number \<Rightarrow> rat \<Rightarrow> number" where
  "num_times (Fin q) c = to_double (q * c)"
| "num_times x c = x"

text \<open>
  The number \<open>- x\<close>, and the numbers greater than zero; both serve to state how the function
  treats a number and its negation.
\<close>

fun negate :: "number \<Rightarrow> number" where
  "negate (Fin q) = Fin (- q)"
| "negate NaN = NaN"
| "negate Infinity = NegInfinity"
| "negate NegInfinity = Infinity"

fun positive :: "number \<Rightarrow> bool" where
  "positive (Fin q) = (0 < q)"
| "positive Infinity = True"
| "positive x = False"

subsection \<open>\<open>humanFileSize\<close>\<close>

definition threshold :: rat where
  "threshold = 1000"

definition units :: "string list" where
  "units = [''kB'', ''MB'', ''GB'', ''TB'', ''PB'', ''EB'', ''ZB'', ''YB'']"

definition r :: rat where
  "r = 10"

text \<open>
  The \<open>do ... while\<close> loop: the body runs, then the condition is read on the new values of
  \<open>bytes\<close> and \<open>u\<close>.
\<close>

function humanFileSize_loop :: "number \<Rightarrow> int \<Rightarrow> number \<times> int" where
  "humanFileSize_loop bytes u =
     (let bytes' = num_divide bytes threshold; u' = u + 1
      in if num_greater_eq (num_divide (math_round (num_times (math_abs bytes') r)) r) threshold
            \<and> u' < int (length units) - 1
         then humanFileSize_loop bytes' u' else (bytes', u'))"
  by pat_completeness auto
termination
  by (relation "measure (\<lambda>(bytes, u). nat (int (length units) - 1 - u))") auto

declare humanFileSize_loop.simps [simp del]

text \<open>\<open>units[u]\<close>: an index outside the array reads \<open>undefined\<close>.\<close>

definition units_at :: "int \<Rightarrow> string" where
  "units_at u = (if 0 \<le> u \<and> u < int (length units) then units ! nat u else ''undefined'')"

definition humanFileSize :: "number \<Rightarrow> string" where
  "humanFileSize bytes =
     (if num_less (math_abs bytes) threshold then ToString bytes @ '' B''
      else let (bytes', u) = humanFileSize_loop bytes (- 1)
           in toFixed bytes' @ '' '' @ units_at u)"

subsection \<open>Listing the objects of a bucket\<close>

text \<open>
  The fields of the SDK's \<open>_Object\<close> that the component reads. Both are optional in the
  SDK's type.
\<close>

record s3_object =
  Key :: "string option"
  Size :: "number option"

text \<open>The input of \<open>ListObjectsCommand\<close> as \<open>fetchBucketObjects\<close> builds it.\<close>

record list_objects_input =
  Bucket :: string
  Marker :: "string option"

text \<open>
  The part of the command's output that \<open>fetchBucketObjects\<close> destructures. Both fields may
  be \<open>undefined\<close>.
\<close>

record list_objects_output =
  Contents :: "s3_object list option"
  NextMarker :: "string option"

text \<open>
  A value that a rejected promise carries. \<open>instanceof_S3ServiceException\<close> is the outcome of
  \<open>err instanceof S3ServiceException\<close>; \<open>error_Bucket\<close> is the property \<open>Bucket\<close> of the error
  object, which the type guard does not check and which may be \<open>undefined\<close>.
\<close>

record js_error =
  instanceof_S3ServiceException :: bool
  name :: string
  message :: string
  error_Bucket :: "string option"

text \<open>
  \<open>new S3Client({}).send(command)\<close> is an effect on the outside world. The world is a state
  \<open>'w\<close>; a call maps the command's input and the world to the awaited outcome (\<open>Inl\<close> for
  a rejection, \<open>Inr\<close> for the output) and the world after the call.
\<close>

type_synonym 'w s3_send =
  "list_objects_input \<Rightarrow> 'w \<Rightarrow> (js_error + list_objects_output) \<times> 'w"

text \<open>
  \<open>if (NextMarker)\<close>: \<open>undefined\<close> and the empty string are falsy, every other string is
  truthy.
\<close>

definition truthy :: "string option \<Rightarrow> bool" where
  "truthy m = (case m of None \<Rightarrow> False | Some s \<Rightarrow> s \<noteq> [])"

text \<open>\<open>Contents || []\<close>: an array is always truthy, so only \<open>undefined\<close> is replaced.\<close>

definition contents_or_empty :: "s3_object list option \<Rightarrow> s3_object list" where
  "contents_or_empty c = (case c of None \<Rightarrow> [] | Some xs \<Rightarrow> xs)"

text \<open>
  \<open>fetchBucketObjects(bucket, nextMarker, objects)\<close>. The recursion follows the markers the
  service returns and nothing bounds it, so the function is partial: \<open>None\<close> is a run that
  never settles. A rejected \<open>send\<close> rejects the whole call with the same error.
\<close>

partial_function (option) fetchBucketObjects ::
  "'w s3_send \<Rightarrow> string \<Rightarrow> string option \<Rightarrow> s3_object list \<Rightarrow> 'w
    \<Rightarrow> ((js_error + s3_object list) \<times> 'w) option"
where
  "fetchBucketObjects send bucket nextMarker objects w =
     (case send \<lparr>Bucket = bucket, Marker = nextMarker\<rparr> w of
        (Inl err, w') \<Rightarrow> Some (Inl err, w')
      | (Inr out, w') \<Rightarrow>
          (let combinedObjects = objects @ contents_or_empty (Contents out) in
           if truthy (NextMarker out)
           then fetchBucketObjects send bucket (NextMarker out) combinedObjects w'
           else Some (Inr combinedObjects, w')))"

text \<open>
  To state which calls a run issues, the service is wrapped so that the world also holds the
  list of the inputs sent so far, oldest first.
\<close>

definition logged :: "'w s3_send \<Rightarrow> ('w \<times> list_objects_input list) s3_send" where
  "logged send input =
     (\<lambda>(w, calls). case send input w of (res, w') \<Rightarrow> (res, (w', calls @ [input])))"

text \<open>
  \<open>answers send bucket marker w pages w'\<close>: asked for \<open>bucket\<close> from \<open>marker\<close> in the world
  \<open>w\<close>, the service answers with the outputs \<open>pages\<close>, one per call, where every page but
  the last carries a truthy \<open>NextMarker\<close> and is followed by the answer to the call with that
  marker, the last page carries none, and the world is \<open>w'\<close> then.
\<close>

fun answers ::
  "'w s3_send \<Rightarrow> string \<Rightarrow> string option \<Rightarrow> 'w \<Rightarrow> list_objects_output list \<Rightarrow> 'w \<Rightarrow> bool"
where
  "answers send bucket marker w [] w' = False"
| "answers send bucket marker w (p # ps) w' =
     (case send \<lparr>Bucket = bucket, Marker = marker\<rparr> w of
        (Inl err, w1) \<Rightarrow> False
      | (Inr out, w1) \<Rightarrow>
          out = p \<and>
          (if ps = [] then \<not> truthy (NextMarker p) \<and> w' = w1
           else truthy (NextMarker p) \<and> answers send bucket (NextMarker p) w1 ps w'))"

text \<open>
  \<open>fails_after send bucket marker w pages err w'\<close>: the service answers with the outputs
  \<open>pages\<close>, each with a truthy \<open>NextMarker\<close>, and rejects the call that follows them with
  \<open>err\<close>.
\<close>

fun fails_after ::
  "'w s3_send \<Rightarrow> string \<Rightarrow> string option \<Rightarrow> 'w \<Rightarrow> list_objects_output list \<Rightarrow> js_error \<Rightarrow> 'w
    \<Rightarrow> bool"
where
  "fails_after send bucket marker w [] err w' =
     (send \<lparr>Bucket = bucket, Marker = marker\<rparr> w = (Inl err, w'))"
| "fails_after send bucket marker w (p # ps) err w' =
     (case send \<lparr>Bucket = bucket, Marker = marker\<rparr> w of
        (Inl err1, w1) \<Rightarrow> False
      | (Inr out, w1) \<Rightarrow>
          out = p \<and> truthy (NextMarker p)
          \<and> fails_after send bucket (NextMarker p) w1 ps err w')"

text \<open>
  The inputs of a run that follows \<open>pages\<close> from \<open>marker\<close>: the first call passes \<open>marker\<close>,
  every later call the \<open>NextMarker\<close> of the page before it.
\<close>

definition inputs_of ::
  "string \<Rightarrow> string option \<Rightarrow> list_objects_output list \<Rightarrow> list_objects_input list"
where
  "inputs_of bucket marker pages =
     map (\<lambda>m. \<lparr>Bucket = bucket, Marker = m\<rparr>) (marker # map NextMarker (butlast pages))"

subsection \<open>The list of objects on screen\<close>

text \<open>The SDK's \<open>Bucket\<close>, of which the component reads the name.\<close>

record bucket =
  Name :: "string option"

text \<open>What \<open>useCachedPromise(fetchBucketObjects, [bucket.Name || ""])\<close> hands to the render.\<close>

record cached_promise =
  data :: "s3_object list option"
  error :: "js_error option"
  isLoading :: bool

datatype icon = Icon_Document | Icon_Globe | Icon_Warning

text \<open>
  The actions of an item. The handler of the download form is a closure; it is kept as the
  input of the \<open>GetObjectCommand\<close> it sends.
\<close>

datatype action =
    Action_OpenInBrowser string string
  | Action_SubmitForm string string string
  | Action_CopyToClipboard string string

datatype list_child =
    List_EmptyView string string icon "action list"
  | List_Item string icon string "action list" string

record list_element =
  list_isLoading :: bool
  searchBarPlaceholder :: string
  children :: "list_child list"

text \<open>\<open>x || ""\<close> on an optional string, and an optional string inside a template literal.\<close>

definition or_empty :: "string option \<Rightarrow> string" where
  "or_empty x = (case x of None \<Rightarrow> [] | Some s \<Rightarrow> s)"

definition interpolate :: "string option \<Rightarrow> string" where
  "interpolate x = (case x of None \<Rightarrow> ''undefined'' | Some s \<Rightarrow> s)"

text \<open>\<open>object.Size || 0\<close>: \<open>undefined\<close>, zero and \<open>NaN\<close> are falsy.\<close>

definition size_or_zero :: "number option \<Rightarrow> number" where
  "size_or_zero x =
     (case x of None \<Rightarrow> Fin 0 | Some NaN \<Rightarrow> Fin 0 | Some n \<Rightarrow> n)"

text \<open>The type guard; \<open>undefined\<close> is an instance of nothing.\<close>

definition isPermanentRedirectError :: "js_error option \<Rightarrow> bool" where
  "isPermanentRedirectError err =
     (case err of
        None \<Rightarrow> False
      | Some e \<Rightarrow> instanceof_S3ServiceException e \<and> name e = ''PermanentRedirect'')"

text \<open>
  \<open>S3BucketObjects\<close>, as a function of the environment variable \<open>AWS_REGION\<close>, the bucket and
  the state of the hook. The source tests the type guard first and the presence of an error
  second; the guard is false without an error, so the error is read first here, which gives
  the guarded branch the error whose \<open>Bucket\<close> it prints.
\<close>

definition S3BucketObjects ::
  "string option \<Rightarrow> bucket \<Rightarrow> cached_promise \<Rightarrow> list_element"
where
  "S3BucketObjects AWS_REGION bucket hook =
     \<lparr>list_isLoading = isLoading hook,
      searchBarPlaceholder = ''Filter objects by name...'',
      children =
        (case error hook of
           Some err \<Rightarrow>
             if isPermanentRedirectError (Some err)
             then [List_EmptyView ''Wrong region for bucket.''
                     (''The '' @ interpolate (error_Bucket err)
                      @ '' cannot be accessed with your current region (''
                      @ interpolate AWS_REGION @ '').'' @ [CHR 0x0A]
                      @ ''Hit `Enter` to open this bucket in the AWS Console.'')
                     Icon_Globe
                     [Action_OpenInBrowser ''Open in Browser''
                        (''https://s3.console.aws.amazon.com/s3/buckets/''
                         @ or_empty (Name bucket))]]
             else [List_EmptyView (name err) (message err) Icon_Warning []]
         | None \<Rightarrow>
             (case data hook of
                None \<Rightarrow> []
              | Some objects \<Rightarrow>
                  map (\<lambda>object.
                         List_Item (or_empty (Key object)) Icon_Document (or_empty (Key object))
                           [Action_OpenInBrowser ''Open in Browser''
                              (''https://s3.console.aws.amazon.com/s3/object/''
                               @ or_empty (Name bucket) @ ''?region='' @ interpolate AWS_REGION
                               @ ''&prefix='' @ or_empty (Key object)),
                            Action_SubmitForm ''Download''
                              (or_empty (Name bucket)) (or_empty (Key object)),
                            Action_CopyToClipboard ''Copy Key'' (or_empty (Key object))]
                           (humanFileSize (size_or_zero (Size object))))
                      objects))\<rparr>"

subsection \<open>An example service\<close>

text \<open>
  A service with three buckets, used to run the functions on concrete inputs. Its world
  counts the calls it has served. The bucket \<open>photos\<close> has three pages, the second of them
  without \<open>Contents\<close>; \<open>empty\<close> has no object; the second call for \<open>logs\<close> is rejected, and so
  is every call for another bucket.
\<close>

definition example_object :: "string \<Rightarrow> rat \<Rightarrow> s3_object" where
  "example_object k n = \<lparr>Key = Some k, Size = Some (Fin n)\<rparr>"

definition example_error :: js_error where
  "example_error =
     \<lparr>instanceof_S3ServiceException = True, name = ''AccessDenied'',
      message = ''Access Denied'', error_Bucket = None\<rparr>"

definition example_redirect :: js_error where
  "example_redirect =
     \<lparr>instanceof_S3ServiceException = True, name = ''PermanentRedirect'',
      message = ''The bucket you are attempting to access must be addressed using the specified endpoint.'',
      error_Bucket = Some ''photos''\<rparr>"



definition example_pages :: "list_objects_output list" where
  "example_pages =
     [\<lparr>Contents = Some [example_object ''a.png'' 0, example_object ''b.png'' 999600],
       NextMarker = Some ''b.png''\<rparr>,
      \<lparr>Contents = None, NextMarker = Some ''b.zzz''\<rparr>,
      \<lparr>Contents = Some [example_object ''c.png'' 1500000], NextMarker = None\<rparr>]"

definition example_send :: "nat s3_send" where
  "example_send input w =
     (if Bucket input = ''photos'' then
        (if Marker input = None then (Inr (example_pages ! 0), Suc w)
         else if Marker input = Some ''b.png'' then (Inr (example_pages ! 1), Suc w)
         else if Marker input = Some ''b.zzz'' then (Inr (example_pages ! 2), Suc w)
         else (Inl example_error, Suc w))
      else if Bucket input = ''empty'' then
        (Inr \<lparr>Contents = None, NextMarker = None\<rparr>, Suc w)
      else if Bucket input = ''logs'' \<and> Marker input = None then
        (Inr \<lparr>Contents = Some [example_object ''1.log'' 12], NextMarker = Some ''1.log''\<rparr>, Suc w)
      else (Inl example_error, Suc w))"

section \<open>Properties\<close>

subsection \<open>Rounding to a double\<close>

lemma digit_length_nonpos: "n \<le> 0 \<Longrightarrow> digit_length b n = 0"
  by (subst digit_length.simps) simp

lemma digit_length_bounds:
  "0 < n \<Longrightarrow> 1 < b \<Longrightarrow>
   0 < digit_length b n \<and> b ^ nat (digit_length b n - 1) \<le> n \<and> n < b ^ nat (digit_length b n)"
proof (induction b n rule: digit_length.induct)
  case (1 b n)
  show ?case
  proof (cases "0 < n div b")
    case True
    with "1.IH" "1.prems"
    have ih: "0 < digit_length b (n div b)"
      "b ^ nat (digit_length b (n div b) - 1) \<le> n div b"
      "n div b < b ^ nat (digit_length b (n div b))"
      by auto
    have eq: "digit_length b n = digit_length b (n div b) + 1"
      using "1.prems" by (subst digit_length.simps) simp
    from ih(1) have n1: "nat (digit_length b (n div b) + 1 - 1) = Suc (nat (digit_length b (n div b) - 1))"
      by simp
    from ih(1) have n2: "nat (digit_length b (n div b) + 1) = Suc (nat (digit_length b (n div b)))"
      by simp
    have dm: "n = b * (n div b) + n mod b" "0 \<le> n mod b" "n mod b < b"
      using "1.prems" by simp_all
    have "b * (n div b) \<le> n"
      using dm by linarith
    moreover have "b * b ^ nat (digit_length b (n div b) - 1) \<le> b * (n div b)"
      using ih(2) "1.prems" by simp
    ultimately have lo: "b ^ nat (digit_length b n - 1) \<le> n"
      unfolding eq n1 by simp
    have "n div b + 1 \<le> b ^ nat (digit_length b (n div b))"
      using ih(3) by simp
    then have "b * (n div b + 1) \<le> b * b ^ nat (digit_length b (n div b))"
      using "1.prems" by simp
    moreover have "b * (n div b + 1) = b * (n div b) + b"
      by (simp add: distrib_left)
    with dm have "n < b * (n div b + 1)"
      by linarith
    ultimately have hi: "n < b ^ nat (digit_length b n)"
      unfolding eq n2 by simp
    from lo hi ih(1) eq show ?thesis by simp
  next
    case False
    with "1.prems" have z: "n div b = 0"
      by (simp add: not_less pos_imp_zdiv_nonneg_iff order_antisym)
    then have eq: "digit_length b n = 1"
      using "1.prems" by (subst digit_length.simps) (simp add: digit_length_nonpos)
    from z "1.prems" have "n < b"
      by (simp add: zdiv_eq_0_iff)
    with "1.prems" eq show ?thesis by simp
  qed
qed

text \<open>\<open>floor_log b q\<close> is the exponent of the power of \<open>b\<close> at or below \<open>q\<close>.\<close>

lemma floor_log_bounds:
  assumes "0 < q" "1 < b"
  shows "of_int b powi floor_log b q \<le> q \<and> q < of_int b powi (floor_log b q + 1)"
proof (cases "1 \<le> q")
  case True
  define n where "n = \<lfloor>q\<rfloor>"
  define d where "d = digit_length b n"
  from True have n: "0 < n" by (simp add: n_def)
  from digit_length_bounds [OF n assms(2)]
  have d: "0 < d" "b ^ nat (d - 1) \<le> n" "n < b ^ nat d"
    by (simp_all add: d_def)
  have fl: "floor_log b q = d - 1"
    using True by (simp add: floor_log_def d_def n_def)
  have "rat_of_int (b ^ nat (d - 1)) \<le> of_int n"
    using d(2) by (simp only: of_int_le_iff)
  also have "\<dots> \<le> q" by (simp add: n_def)
  finally have lo: "of_int b powi (d - 1) \<le> q"
    using d(1) by (simp add: power_int_def)
  have "n + 1 \<le> b ^ nat d" using d(3) by simp
  then have "rat_of_int (n + 1) \<le> of_int (b ^ nat d)"
    by (simp only: of_int_le_iff)
  moreover have "q < of_int (n + 1)"
    using floor_correct [of q] by (simp add: n_def)
  ultimately have hi: "q < of_int b powi d"
    using d(1) by (simp add: power_int_def)
  from lo hi fl show ?thesis by simp
next
  case False
  define c where "c = \<lceil>1 / q\<rceil>"
  define j where "j = digit_length b (c - 1)"
  from False assms(1) have t: "1 < 1 / q" by simp
  then have c: "1 < c" by (simp add: c_def less_ceiling_iff)
  then have c1: "0 < c - 1" by simp
  from digit_length_bounds [OF c1 assms(2)]
  have j: "0 < j" "b ^ nat (j - 1) \<le> c - 1" "c - 1 < b ^ nat j"
    by (simp_all add: j_def)
  have fl: "floor_log b q = - j"
    using False by (simp add: floor_log_def j_def c_def)
  have cj: "rat_of_int c \<le> of_int b ^ nat j"
  proof -
    have "c \<le> b ^ nat j" using j(3) by simp
    then have "rat_of_int c \<le> of_int (b ^ nat j)"
      by (simp only: of_int_le_iff)
    then show ?thesis by simp
  qed
  have "1 / q \<le> of_int c"
    by (simp add: c_def)
  with cj have "1 / q \<le> of_int b ^ nat j"
    by linarith
  moreover have bp: "0 < rat_of_int b ^ nat j" "0 < rat_of_int b ^ nat (j - 1)"
    using assms(2) by simp_all
  moreover have "of_int b powi (- j) = 1 / rat_of_int b ^ nat j"
    using j(1) by (simp add: power_int_def inverse_eq_divide power_one_over)
  ultimately have lo: "of_int b powi (- j) \<le> q"
    using assms(1) by (simp add: field_simps)
  have jc: "rat_of_int b ^ nat (j - 1) \<le> of_int (c - 1)"
  proof -
    have "rat_of_int (b ^ nat (j - 1)) \<le> of_int (c - 1)"
      using j(2) by (simp only: of_int_le_iff)
    then show ?thesis by simp
  qed
  have "of_int (c - 1) < 1 / q"
    unfolding c_def by (simp add: ceiling_correct)
  with jc have "of_int b ^ nat (j - 1) < 1 / q"
    by linarith
  moreover have "of_int b powi (- j + 1) = 1 / rat_of_int b ^ nat (j - 1)"
  proof -
    have "- j + 1 = - (j - 1)" by simp
    then show ?thesis
      using j(1) by (simp only: power_int_minus_divide) (simp add: power_int_def)
  qed
  ultimately have hi: "q < of_int b powi (- j + 1)"
    using assms(1) bp by (simp add: field_simps)
  from lo hi fl show ?thesis by simp
qed

lemma floor_log_zero: "floor_log b 0 = 0"
  by (simp add: floor_log_def digit_length_nonpos)

lemma floor_log_of_int: "0 < j \<Longrightarrow> floor_log b (of_int j) = digit_length b j - 1"
  by (simp add: floor_log_def)

lemma round_half_even_of_int: "round_half_even (of_int z) = z"
  by (simp add: round_half_even_def)

lemma round_half_even_le: "of_int (round_half_even v) \<le> v + 1 / 2"
proof -
  have "rat_of_int \<lfloor>v\<rfloor> \<le> v" by simp
  then show ?thesis
    unfolding round_half_even_def Let_def by (simp split: if_splits) linarith
qed

lemma round_half_even_nonneg: "0 \<le> v \<Longrightarrow> 0 \<le> round_half_even v"
  by (auto simp: round_half_even_def Let_def)

lemma round_half_even_le_double: "0 \<le> v \<Longrightarrow> of_int (round_half_even v) \<le> 2 * v"
proof (cases "v < 1 / 2")
  case True
  assume "0 \<le> v"
  with True have "\<lfloor>v\<rfloor> = 0" by (simp add: floor_eq_iff)
  with True \<open>0 \<le> v\<close> show ?thesis
    by (simp add: round_half_even_def)
next
  case False
  with round_half_even_le [of v] show ?thesis by linarith
qed

lemma round_half_even_pos: "1 \<le> v \<Longrightarrow> 1 \<le> round_half_even v"
proof -
  assume "1 \<le> v"
  then have "1 \<le> \<lfloor>v\<rfloor>" by simp
  then show ?thesis by (auto simp: round_half_even_def Let_def)
qed

lemma round_magnitude_zero: "round_magnitude 0 = 0"
  by (simp add: round_magnitude_def)

lemma round_magnitude_nonneg: "0 \<le> q \<Longrightarrow> 0 \<le> round_magnitude q"
  by (simp add: round_magnitude_def Let_def round_half_even_nonneg)

text \<open>Rounding at most doubles a magnitude, and leaves a normal magnitude positive.\<close>

lemma round_magnitude_le_double:
  assumes "0 \<le> q"
  shows "round_magnitude q \<le> 2 * q"
proof (cases "q = 0")
  case True
  then show ?thesis by (simp add: round_magnitude_def)
next
  case False
  define e where "e = max (floor_log 2 q - 52) (- 1074)"
  have p: "0 < (2::rat) powi e" by simp
  with assms have "0 \<le> q / 2 powi e" by simp
  from round_half_even_le_double [OF this]
  have "of_int (round_half_even (q / 2 powi e)) * 2 powi e \<le> 2 * (q / 2 powi e) * 2 powi e"
    using p by (simp only: mult_le_cancel_right_pos)
  also have "\<dots> = 2 * q" using p by simp
  finally show ?thesis
    using False by (simp add: round_magnitude_def e_def Let_def)
qed

lemma power_int_two_less: "(2::rat) powi a < 2 powi b \<Longrightarrow> a < b"
  by (metis linorder_less_linear numeral_One numeral_less_iff
    order_less_imp_not_less power_int_strict_increasing semiring_norm(76))

lemma round_magnitude_pos:
  assumes "2 powi (- 1022) \<le> q"
  shows "0 < round_magnitude q"
proof -
  have q: "0 < q"
    using assms by (rule less_le_trans [rotated]) simp
  from floor_log_bounds [OF q, of 2]
  have b: "2 powi floor_log 2 q \<le> q" "q < 2 powi (floor_log 2 q + 1)"
    by simp_all
  from assms b(2) have "(2::rat) powi (- 1022) < 2 powi (floor_log 2 q + 1)"
    by linarith
  then have "- 1022 < floor_log 2 q + 1"
    by (rule power_int_two_less)
  then have e: "max (floor_log 2 q - 52) (- 1074) = floor_log 2 q - 52"
    by simp
  have "(2::rat) powi floor_log 2 q = 2 ^ 52 * 2 powi (floor_log 2 q - 52)"
    by (simp add: power_int_diff)
  with b(1) have "2 ^ 52 * 2 powi (floor_log 2 q - 52) \<le> q"
    by simp
  moreover have "(2::rat) powi (floor_log 2 q - 52) \<le> 2 ^ 52 * 2 powi (floor_log 2 q - 52)"
    by simp
  ultimately have "2 powi (floor_log 2 q - 52) \<le> q"
    by (rule order_trans [rotated])
  then have "1 \<le> q / 2 powi (floor_log 2 q - 52)"
    by (simp add: pos_le_divide_eq)
  from round_half_even_pos [OF this]
  have "0 < rat_of_int (round_half_even (q / 2 powi (floor_log 2 q - 52)))"
    by simp
  then show ?thesis
    using q e by (simp add: round_magnitude_def Let_def zero_less_mult_iff)
qed

text \<open>Rounding commutes with negation; an integer below \<open>2\<^sup>5\<^sup>3\<close> is a double.\<close>

lemma to_double_negate: "to_double (- q) = negate (to_double q)"
  by (cases "q = 0") (auto simp: to_double_def Let_def round_magnitude_zero floor_log_zero)

lemma to_double_cases:
  assumes "0 \<le> q"
  shows "(to_double q = Infinity \<and> 2 powi 1024 \<le> round_magnitude q)
         \<or> to_double q = Fin (round_magnitude q)"
proof (cases "1024 \<le> floor_log 2 (round_magnitude \<bar>q\<bar>)")
  case True
  define m where "m = round_magnitude q"
  from assms have m0: "0 \<le> m" by (simp add: m_def round_magnitude_nonneg)
  from True assms have fl: "1024 \<le> floor_log 2 m" by (simp add: m_def)
  then have "m \<noteq> 0" by (auto simp: floor_log_zero)
  with m0 have "0 < m" by simp
  from floor_log_bounds [OF this, of 2] have "2 powi floor_log 2 m \<le> m" by simp
  moreover from fl have "(2::rat) powi 1024 \<le> 2 powi floor_log 2 m"
    by (intro power_int_increasing) simp_all
  ultimately have "2 powi 1024 \<le> m" by (rule order_trans [rotated])
  with True assms show ?thesis
    by (simp add: to_double_def m_def)
next
  case False
  with assms show ?thesis
    by (simp add: to_double_def)
qed

lemma to_double_ge:
  assumes "0 \<le> q" and "num_greater_eq (to_double q) c" and "c \<le> 2 powi 1024"
  shows "c \<le> 2 * q"
  using to_double_cases [OF assms(1)] round_magnitude_le_double [OF assms(1)] assms(2,3)
  by auto

lemma to_double_positive:
  assumes "2 powi (- 1022) \<le> q"
  shows "positive (to_double q)"
proof -
  have q: "0 < q"
    using assms by (rule less_le_trans [rotated]) simp
  then have "0 \<le> q" by simp
  from to_double_cases [OF this] round_magnitude_pos [OF assms] show ?thesis
    by auto
qed

lemma to_double_of_int:
  assumes "0 \<le> j" and "j < 2 ^ 53"
  shows "to_double (of_int j) = Fin (of_int j)"
proof (cases "j = 0")
  case True
  then show ?thesis
    by (simp add: to_double_def round_magnitude_zero floor_log_zero)
next
  case False
  with assms have j: "0 < j" by simp
  define d where "d = digit_length 2 j"
  from digit_length_bounds [OF j, of 2]
  have d: "0 < d" "2 ^ nat (d - 1) \<le> j" "j < 2 ^ nat d"
    by (simp_all add: d_def)
  from d(2) assms(2) have "(2::int) ^ nat (d - 1) < 2 ^ 53" by linarith
  then have "nat (d - 1) < 53"
    by (intro power_less_imp_less_exp [of "2::int"]) simp_all
  with d(1) have d53: "d \<le> 53" by linarith
  have fl: "floor_log 2 (rat_of_int j) = d - 1"
    using j by (simp add: floor_log_of_int d_def)
  define t where "t = nat (53 - d)"
  have e: "max (floor_log 2 (rat_of_int j) - 52) (- 1074) = - int t"
    using d(1) d53 by (simp add: fl t_def)
  have p: "(2::rat) powi (- int t) = 1 / 2 ^ t"
    by (simp only: power_int_minus_divide power_int_of_nat)
  have "rat_of_int j / (1 / 2 ^ t) = of_int (j * 2 ^ t)"
    by simp
  then have "round_half_even (rat_of_int j / 2 powi (- int t)) = j * 2 ^ t"
    by (simp only: p round_half_even_of_int)
  then have rm: "round_magnitude (rat_of_int j) = of_int j"
    using j by (simp only: round_magnitude_def Let_def e p) simp
  from j have "\<bar>rat_of_int j\<bar> = of_int j" by simp
  with rm fl d53 j show ?thesis
    by (simp add: to_double_def Let_def)
qed






subsection \<open>The string of an integer\<close>

lemma closest_None: "closest q k cs = None \<longleftrightarrow> cs = []"
  by (induction cs) (auto split: option.splits)

lemma closest_Some: "closest q k cs = Some c \<Longrightarrow> c \<in> set cs"
  by (induction cs arbitrary: c) (auto split: option.splits if_splits)

lemma candidates_mem:
  "(s, n) \<in> set (candidates q k) \<Longrightarrow>
     (n = floor_log 10 q + 1 \<or> n = floor_log 10 q + 2)
     \<and> 10 ^ (k - 1) \<le> s \<and> s < 10 ^ k
     \<and> to_double (of_int s * 10 powi (n - int k)) = Fin q"
  by (auto simp: candidates_def Let_def)

lemma candidates_exact:
  assumes "10 ^ (k - 1) \<le> s" and "s < 10 ^ k"
    and "to_double (of_int s) = Fin (of_int s)" and "floor_log 10 (of_int s) + 1 = int k"
  shows "(s, int k) \<in> set (candidates (of_int s) k)"
  using assms by (simp add: candidates_def Let_def)

text \<open>
  When some \<open>k1\<close> has a candidate, the search from \<open>k0 \<le> k1\<close> ends at or before \<open>k1\<close>, with
  a candidate.
\<close>

lemma shortest_digits_found:
  "k0 \<le> k1 \<Longrightarrow> k1 \<le> 17 \<Longrightarrow> candidates q k1 \<noteq> [] \<Longrightarrow>
   (case shortest_digits q k0 of
      (s, n, k) \<Rightarrow> k0 \<le> k \<and> k \<le> k1 \<and> (s, n) \<in> set (candidates q k))"
proof (induction q k0 rule: shortest_digits.induct)
  case (1 q k)
  show ?case
  proof (cases "closest q k (candidates q k)")
    case None
    then have empty: "candidates q k = []" by (simp add: closest_None)
    with "1.prems" have "k \<noteq> k1" by auto
    with "1.prems" have lt: "k < 17" "Suc k \<le> k1" by simp_all
    from "1.IH" [OF None lt(1) lt(2) "1.prems"(2,3)] None lt(1) show ?thesis
      by (subst shortest_digits.simps) (auto split: prod.splits)
  next
    case (Some c)
    obtain s n where c: "c = (s, n)" by (cases c)
    from closest_Some [OF Some] c have "(s, n) \<in> set (candidates q k)" by simp
    with Some c "1.prems"(1) show ?thesis
      by (subst shortest_digits.simps) simp
  qed
qed

lemma digits_of_times_ten: "0 < s \<Longrightarrow> digits_of (s * 10) = digits_of s @ ''0''"
  by (subst digits_of.simps) simp

lemma digits_of_shift: "0 < s \<Longrightarrow> digits_of (s * 10 ^ j) = digits_of s @ replicate j CHR ''0''"
proof (induction j)
  case 0
  then show ?case by simp
next
  case (Suc j)
  from Suc.prems have "0 < s * 10 ^ j" by simp
  from digits_of_times_ten [OF this] Suc show ?case
    by (simp add: mult.assoc [symmetric] mult.commute replicate_append_same)
qed

lemma digits_of_digits: "set (digits_of n) \<subseteq> set ''0123456789''"
proof (induction n rule: digits_of.induct)
  case (1 n)
  have a: "''0123456789'' ! k \<in> set ''0123456789''" if "k < 10" for k
    using that by (intro nth_mem) simp
  show ?case
  proof (cases "n < 10")
    case True
    then have "nat n < 10" by simp
    from a [OF this] True show ?thesis
      by (subst digits_of.simps) simp
  next
    case False
    have "nat (n mod 10) < 10" by simp
    from a [OF this] False "1.IH" show ?thesis
      by (subst digits_of.simps) simp
  qed
qed

text \<open>
  The string of an integer of at most fourteen digits is its decimal numeral: the search
  ends with digits \<open>s\<close> and an exponent that make an integer below \<open>2\<^sup>5\<^sup>3\<close>, which rounds to
  itself and so is the number.
\<close>

lemma ToString_positive_of_int:
  assumes "0 < m" and "m < 10 ^ 14"
  shows "ToString_positive (of_int m) = digits_of m"
proof -
  define d where "d = digit_length 10 m"
  from digit_length_bounds [OF assms(1), of 10]
  have d: "0 < d" "10 ^ nat (d - 1) \<le> m" "m < 10 ^ nat d"
    by (simp_all add: d_def)
  from d(2) assms(2) have "(10::int) ^ nat (d - 1) < 10 ^ 14" by linarith
  then have "nat (d - 1) < 14"
    by (intro power_less_imp_less_exp [of "10::int"]) simp_all
  with d(1) have d14: "d \<le> 14" by linarith
  have fl: "floor_log 10 (rat_of_int m) + 1 = d"
    using assms(1) by (simp add: floor_log_of_int d_def)
  have "m < 2 ^ 53" using assms(2) by simp
  with assms(1) have ex: "to_double (of_int m) = Fin (of_int m)"
    by (intro to_double_of_int) simp_all
  have "(m, int (nat d)) \<in> set (candidates (of_int m) (nat d))"
    using d fl ex by (intro candidates_exact) (simp_all add: nat_diff_distrib)
  then have ne: "candidates (of_int m) (nat d) \<noteq> []" by auto
  obtain s n k where sd: "shortest_digits (rat_of_int m) 1 = (s, n, k)"
    by (cases "shortest_digits (rat_of_int m) 1")
  from shortest_digits_found [of 1 "nat d" "rat_of_int m", OF _ _ ne] d(1) d14 sd
  have k: "1 \<le> k" "k \<le> nat d" and c: "(s, n) \<in> set (candidates (of_int m) k)"
    by simp_all
  from candidates_mem [OF c] fl
  have n: "n = d \<or> n = d + 1" and s: "10 ^ (k - 1) \<le> s" "s < 10 ^ k"
    and r: "to_double (of_int s * 10 powi (n - int k)) = Fin (of_int m)"
    by auto
  define J where "J = nat (n - int k)"
  from n k d(1) have nk: "n - int k = int J" "int k \<le> n" "n \<le> 15" "nat n = k + J"
    using d14 by (auto simp: J_def)
  from s(1) have s0: "0 < s"
    by (rule less_le_trans [rotated]) simp
  have "s * 10 ^ J < 10 ^ k * 10 ^ J"
    using s(2) by simp
  also have "\<dots> = 10 ^ nat n"
    by (simp add: nk(4) power_add)
  also have "\<dots> \<le> 10 ^ 15"
    using nk(3) by (intro power_increasing) simp_all
  also have "\<dots> < (2::int) ^ 53" by simp
  finally have "s * 10 ^ J < 2 ^ 53" .
  moreover from s0 have "0 \<le> s * 10 ^ J" by simp
  ultimately have "to_double (of_int (s * 10 ^ J)) = Fin (of_int (s * 10 ^ J))"
    by (rule to_double_of_int [rotated])
  moreover have "rat_of_int s * 10 powi (n - int k) = of_int (s * 10 ^ J)"
    by (simp add: nk(1))
  with r have "to_double (of_int (s * 10 ^ J)) = Fin (of_int m)"
    by (simp only:)
  ultimately have "Fin (rat_of_int (s * 10 ^ J)) = Fin (of_int m)"
    by (simp only:)
  then have m: "s * 10 ^ J = m"
    by (simp only: number.inject of_int_eq_iff)
  have "ToString_positive (of_int m) = digits_of s @ replicate J CHR ''0''"
    using nk(2,3) sd by (simp add: ToString_positive_def J_def)
  also have "\<dots> = digits_of m"
    using digits_of_shift [OF s0, of J] m by simp
  finally show ?thesis .
qed

lemma ToString_of_int:
  assumes "\<bar>m\<bar> < 10 ^ 14"
  shows "ToString (Fin (of_int m)) = (if m < 0 then ''-'' else []) @ digits_of \<bar>m\<bar>"
proof -
  consider "m = 0" | "0 < m" | "m < 0" by linarith
  then show ?thesis
  proof cases
    case 1
    then show ?thesis by (simp add: digits_of.simps)
  next
    case 2
    with assms ToString_positive_of_int [of m] show ?thesis by simp
  next
    case 3
    with assms ToString_positive_of_int [of "- m"] show ?thesis by simp
  qed
qed

subsection \<open>\<open>humanFileSize\<close>\<close>

lemma loop_index:
  "u < int (length units) - 1 \<Longrightarrow>
   u < snd (humanFileSize_loop bytes u) \<and> snd (humanFileSize_loop bytes u) \<le> int (length units) - 1"
proof (induction bytes u rule: humanFileSize_loop.induct)
  case (1 bytes u)
  show ?case
  proof (cases "num_greater_eq (num_divide (math_round (num_times (math_abs (num_divide bytes threshold)) r)) r) threshold
            \<and> u + 1 < int (length units) - 1")
    case True
    with "1.IH" [OF refl refl True] show ?thesis
      by (subst (1 2) humanFileSize_loop.simps) (simp add: Let_def)
  next
    case False
    with "1.prems" show ?thesis
      by (subst (1 2) humanFileSize_loop.simps) (auto simp add: Let_def)
  qed
qed

lemma num_divide_negate: "num_divide (negate y) c = negate (num_divide y c)"
  using to_double_negate [of "q / c" for q]
  by (cases y) simp_all

lemma math_abs_negate: "math_abs (negate y) = math_abs y"
  by (cases y) simp_all

text \<open>The loop on \<open>- y\<close> makes the steps of the loop on \<open>y\<close>, with every value negated.\<close>

lemma loop_negate:
  "humanFileSize_loop (negate y) u
     = (negate (fst (humanFileSize_loop y u)), snd (humanFileSize_loop y u))"
proof (induction y u rule: humanFileSize_loop.induct)
  case (1 bytes u)
  show ?case
  proof (cases "num_greater_eq (num_divide (math_round (num_times (math_abs (num_divide bytes threshold)) r)) r) threshold
            \<and> u + 1 < int (length units) - 1")
    case True
    with "1.IH" [OF refl refl True] show ?thesis
      by (subst (1 2 3) humanFileSize_loop.simps)
         (simp add: Let_def num_divide_negate math_abs_negate)
  next
    case False
    then show ?thesis
      by (subst (1 2 3) humanFileSize_loop.simps)
         (auto simp add: Let_def num_divide_negate math_abs_negate)
  qed
qed

lemma toFixed_negate: "positive b \<Longrightarrow> toFixed (negate b) = ''-'' @ toFixed b"
  by (cases b) (simp_all add: toFixed_def)

lemma ten_thousand_le: "(10000 :: rat) \<le> 2 powi 1024"
proof -
  have "(10000 :: rat) \<le> 2 powi 14" by simp
  also have "\<dots> \<le> 2 powi 1024" by (intro power_int_increasing) simp_all
  finally show ?thesis .
qed

lemma smallest_normal_le: "(2::rat) powi (- 1022) \<le> 1 / 4000"
proof -
  have "(2::rat) powi (- 1022) \<le> 2 powi (- 12)" by (intro power_int_increasing) simp_all
  also have "\<dots> \<le> 1 / 4000" by (simp add: power_int_minus_divide)
  finally show ?thesis .
qed

text \<open>
  Where the condition of the loop holds the value is at least \<open>1 / 4\<close> (in fact close to
  \<open>1000\<close>; the bound only has to keep the next quotient away from zero).
\<close>

lemma condition_lower:
  assumes "0 < m"
    and "num_greater_eq (num_divide (math_round (num_times (math_abs (Fin m)) r)) r) threshold"
  shows "1 / 4 \<le> m"
proof -
  have m10: "0 \<le> m * 10" using assms(1) by simp
  from to_double_cases [OF m10]
  show ?thesis
  proof
    assume "to_double (m * 10) = Infinity \<and> 2 powi 1024 \<le> round_magnitude (m * 10)"
    with round_magnitude_le_double [OF m10] ten_thousand_le show ?thesis by linarith
  next
    assume f: "to_double (m * 10) = Fin (round_magnitude (m * 10))"
    define m1 where "m1 = round_magnitude (m * 10)"
    define z where "z = \<lfloor>m1 + 1 / 2\<rfloor>"
    have m1: "0 \<le> m1" "m1 \<le> 20 * m"
      using round_magnitude_nonneg [OF m10] round_magnitude_le_double [OF m10]
      by (simp_all add: m1_def)
    then have z0: "0 \<le> rat_of_int z / 10" by (simp add: z_def)
    from assms(2) f assms(1)
    have "num_greater_eq (to_double (of_int z / 10)) 1000"
      by (simp add: r_def threshold_def m1_def z_def)
    from to_double_ge [OF z0 this] ten_thousand_le have "1000 \<le> 2 * (rat_of_int z / 10)"
      by simp
    moreover have "rat_of_int z \<le> m1 + 1 / 2" by (simp add: z_def)
    ultimately show ?thesis using m1 by linarith
  qed
qed

lemma loop_positive:
  "num_greater_eq y (1 / 4) \<Longrightarrow> positive (fst (humanFileSize_loop y u))"
proof (induction y u rule: humanFileSize_loop.induct)
  case (1 bytes u)
  define b where "b = num_divide bytes threshold"
  have pb: "positive b"
  proof (cases bytes)
    case (Fin q)
    with "1.prems" have "1 / 4 \<le> q" by simp
    then have "1 / 4000 \<le> q / 1000" by simp
    with smallest_normal_le have "2 powi (- 1022) \<le> q / 1000" by linarith
    from to_double_positive [OF this] Fin show ?thesis
      by (simp add: b_def threshold_def)
  qed (use "1.prems" in \<open>simp_all add: b_def\<close>)
  show ?case
  proof (cases "num_greater_eq (num_divide (math_round (num_times (math_abs b) r)) r) threshold
            \<and> u + 1 < int (length units) - 1")
    case True
    have "num_greater_eq b (1 / 4)"
    proof (cases b)
      case (Fin m)
      with pb True condition_lower [of m] show ?thesis by simp
    qed (use pb in simp_all)
    from "1.IH" [OF refl refl True [unfolded b_def] this [unfolded b_def]] True show ?thesis
      by (subst humanFileSize_loop.simps) (simp add: Let_def b_def)
  next
    case False
    with pb show ?thesis
      by (subst humanFileSize_loop.simps) (auto simp add: Let_def b_def)
  qed
qed

lemma humanFileSize_0: "humanFileSize (Fin 0) = ''0 B''"
  by code_simp

lemma humanFileSize_999: "humanFileSize (Fin 999) = ''999 B''"
  by code_simp

lemma humanFileSize_1000: "humanFileSize (Fin 1000) = ''1 kB''"
  by code_simp

lemma humanFileSize_1500000: "humanFileSize (Fin 1500000) = ''2 MB''"
  by code_simp

lemma humanFileSize_minus_2048: "humanFileSize (Fin (- 2048)) = ''-2 kB''"
  by code_simp

lemma humanFileSize_2048: "humanFileSize (Fin 2048) = ''2 kB''"
  by code_simp

text \<open>
  C4. The test vectors of the formatter: \<open>0\<close> gives \<open>0 B\<close>, \<open>999\<close> gives \<open>999 B\<close>, \<open>1000\<close> gives
  \<open>1 kB\<close>, \<open>1500000\<close> gives \<open>2 MB\<close> and \<open>-2048\<close> gives \<open>-2 kB\<close>.
\<close>

theorem humanFileSize_vectors:
  "humanFileSize (Fin 0) = ''0 B''
   \<and> humanFileSize (Fin 999) = ''999 B''
   \<and> humanFileSize (Fin 1000) = ''1 kB''
   \<and> humanFileSize (Fin 1500000) = ''2 MB''
   \<and> humanFileSize (Fin (- 2048)) = ''-2 kB''"
  using humanFileSize_0 humanFileSize_999 humanFileSize_1000 humanFileSize_1500000
    humanFileSize_minus_2048
  by (intro conjI)

text \<open>
  C5, as the code has it. An integer of magnitude below 1000 is rendered as its decimal
  numeral followed by \<open>B\<close>, with no decimal point. (The claim speaks of every number; a
  number that is not an integer keeps its fraction, see the counterexample.)
\<close>

theorem humanFileSize_bytes:
  assumes "\<bar>m\<bar> < 1000"
  shows "humanFileSize (Fin (of_int m)) = (if m < 0 then ''-'' else []) @ digits_of \<bar>m\<bar> @ '' B''
         \<and> CHR ''.'' \<notin> set (humanFileSize (Fin (of_int m)))"
proof -
  from assms have "\<bar>m\<bar> < 10 ^ 14" by simp
  moreover from assms have "rat_of_int \<bar>m\<bar> < of_int 1000"
    by (simp only: of_int_less_iff)
  then have "num_less (math_abs (Fin (of_int m))) threshold"
    by (simp add: threshold_def)
  ultimately
  have h: "humanFileSize (Fin (of_int m)) = (if m < 0 then ''-'' else []) @ digits_of \<bar>m\<bar> @ '' B''"
    using ToString_of_int [of m] by (simp only: humanFileSize_def if_True append_assoc)
  moreover have "CHR ''.'' \<notin> set (digits_of \<bar>m\<bar>)"
    using digits_of_digits [of "\<bar>m\<bar>"] by auto
  ultimately show ?thesis by simp
qed

theorem humanFileSize_bytes_witness:
  "\<bar>- 7 :: int\<bar> < 1000 \<and> humanFileSize (Fin (- 7)) = ''-7 B''"
proof -
  have "digits_of 7 = ''7''"
    by (subst digits_of.simps) simp
  with humanFileSize_bytes [of "- 7"] show ?thesis
    by simp
qed

text \<open>
  C5, as the claim has it, fails: \<open>1.5\<close> is below the threshold and is rendered with its
  fraction.
\<close>

theorem humanFileSize_fraction_counterexample:
  "num_less (math_abs (Fin (3 / 2))) threshold
   \<and> humanFileSize (Fin (3 / 2)) = ''1.5 B''
   \<and> CHR ''.'' \<in> set (humanFileSize (Fin (3 / 2)))"
  by code_simp

text \<open>
  C6. For \<open>x > 0\<close> the output for \<open>- x\<close> is the output for \<open>x\<close> behind a minus sign; the
  comparison with the threshold and the unit chosen are the same for both, since both read
  the absolute value.
\<close>

theorem humanFileSize_negative:
  assumes "0 < x"
  shows "humanFileSize (Fin (- x)) = ''-'' @ humanFileSize (Fin x)
         \<and> num_less (math_abs (Fin (- x))) threshold = num_less (math_abs (Fin x)) threshold
         \<and> snd (humanFileSize_loop (Fin (- x)) (- 1)) = snd (humanFileSize_loop (Fin x) (- 1))"
proof (cases "x < threshold")
  case True
  with assms show ?thesis
    using loop_negate [of "Fin x" "- 1"] by (simp add: humanFileSize_def)
next
  case False
  then have "num_greater_eq (Fin x) (1 / 4)"
    by (simp add: threshold_def)
  from loop_positive [OF this, of "- 1"] toFixed_negate
  have "toFixed (negate (fst (humanFileSize_loop (Fin x) (- 1))))
          = ''-'' @ toFixed (fst (humanFileSize_loop (Fin x) (- 1)))"
    by simp
  with False assms show ?thesis
    using loop_negate [of "Fin x" "- 1"] by (simp add: humanFileSize_def split: prod.splits)
qed

theorem humanFileSize_negative_witness:
  "(0::rat) < 2048 \<and> humanFileSize (Fin (- 2048)) = ''-2 kB''"
  using humanFileSize_negative [of 2048] humanFileSize_2048
  by simp

text \<open>
  The numbers that are not finite: the infinities run through all units and mirror each
  other as well; \<open>NaN\<close> fails every comparison and leaves the loop after one round.
\<close>

lemma humanFileSize_not_finite:
  "humanFileSize Infinity = ''Infinity YB''
   \<and> humanFileSize NegInfinity = ''-Infinity YB''
   \<and> humanFileSize NaN = ''NaN kB''"
  by code_simp

text \<open>
  C7. The loop ends for every number (it is a total function: \<open>u\<close> grows by one in every
  round and the loop stops when it reaches the last index), and the index it ends with lies
  within \<open>units\<close>: the unit read is one of \<open>kB\<close> to \<open>YB\<close>, never \<open>undefined\<close>.
\<close>

theorem humanFileSize_unit_in_bounds:
  "0 \<le> snd (humanFileSize_loop bytes (- 1))
   \<and> snd (humanFileSize_loop bytes (- 1)) < int (length units)
   \<and> units_at (snd (humanFileSize_loop bytes (- 1))) \<in> set units
   \<and> (humanFileSize bytes = ToString bytes @ '' B''
      \<or> humanFileSize bytes
          = toFixed (fst (humanFileSize_loop bytes (- 1))) @ '' ''
            @ units ! nat (snd (humanFileSize_loop bytes (- 1))))"
proof -
  have "(- 1 :: int) < int (length units) - 1"
    by (simp add: units_def)
  from loop_index [OF this, of bytes]
  have b: "0 \<le> snd (humanFileSize_loop bytes (- 1))"
    "snd (humanFileSize_loop bytes (- 1)) < int (length units)"
    by auto
  then have "units_at (snd (humanFileSize_loop bytes (- 1)))
      = units ! nat (snd (humanFileSize_loop bytes (- 1)))"
    by (simp add: units_at_def)
  moreover from b have "nat (snd (humanFileSize_loop bytes (- 1))) < length units"
    by linarith
  ultimately show ?thesis
    using b by (auto simp: humanFileSize_def split: prod.splits)
qed

text \<open>
  Beyond the last unit the number only grows: \<open>10\<^sup>3\<^sup>0\<close> bytes are a million \<open>YB\<close>.
\<close>

lemma humanFileSize_beyond_YB: "humanFileSize (to_double (10 ^ 30)) = ''1000000 YB''"
  by code_simp











text \<open>
  The double next below \<open>999950\<close> has the quotient \<open>999.94999999999993\<close>, ten times which
  rounds to the double \<open>9999.5\<close>, and \<open>Math.round\<close> makes that \<open>10000\<close>: within rounding
  distance of \<open>999.95\<close> the unit advances.
\<close>

lemma humanFileSize_next_below_999950:
  "to_double (999950 - 1 / 2 ^ 33) = Fin (999950 - 1 / 2 ^ 33)
   \<and> num_times (math_abs (num_divide (Fin (999950 - 1 / 2 ^ 33)) threshold)) r = Fin (19999 / 2)
   \<and> humanFileSize (Fin (999950 - 1 / 2 ^ 33)) = ''1 MB''"
  by code_simp

subsection \<open>Listing the objects of a bucket\<close>

lemma fetch_step:
  "fetchBucketObjects send bucket marker objects w =
     (case send \<lparr>Bucket = bucket, Marker = marker\<rparr> w of
        (Inl err, w') \<Rightarrow> Some (Inl err, w')
      | (Inr out, w') \<Rightarrow>
          if truthy (NextMarker out)
          then fetchBucketObjects send bucket (NextMarker out)
                 (objects @ contents_or_empty (Contents out)) w'
          else Some (Inr (objects @ contents_or_empty (Contents out)), w'))"
  by (subst fetchBucketObjects.simps) (simp add: Let_def split: prod.splits sum.splits)

lemma logged_step:
  "send input w = (res, w1) \<Longrightarrow> logged send input (w, calls) = (res, (w1, calls @ [input]))"
  by (simp add: logged_def)

lemma inputs_of_single:
  "inputs_of bucket marker [p] = [\<lparr>Bucket = bucket, Marker = marker\<rparr>]"
  by (simp add: inputs_of_def)

lemma inputs_of_Cons:
  "ps \<noteq> [] \<Longrightarrow>
   inputs_of bucket marker (p # ps)
     = \<lparr>Bucket = bucket, Marker = marker\<rparr> # inputs_of bucket (NextMarker p) ps"
  by (simp add: inputs_of_def)

text \<open>
  A run over a chain of pages, from any marker, with any objects combined and any calls
  logged so far.
\<close>

lemma fetch_answers:
  "answers send bucket marker w pages w' \<Longrightarrow>
   fetchBucketObjects (logged send) bucket marker objects (w, calls) =
     Some (Inr (objects @ concat (map (\<lambda>p. contents_or_empty (Contents p)) pages)),
           (w', calls @ inputs_of bucket marker pages))"
proof (induction pages arbitrary: marker w objects calls)
  case Nil
  then show ?case by simp
next
  case (Cons p ps)
  obtain res w1 where s: "send \<lparr>Bucket = bucket, Marker = marker\<rparr> w = (res, w1)"
    by (cases "send \<lparr>Bucket = bucket, Marker = marker\<rparr> w")
  with Cons.prems have res: "res = Inr p"
    by (cases res) auto
  from s res
  have l: "logged send \<lparr>Bucket = bucket, Marker = marker\<rparr> (w, calls)
             = (Inr p, (w1, calls @ [\<lparr>Bucket = bucket, Marker = marker\<rparr>]))"
    by (simp add: logged_step)
  show ?case
  proof (cases "ps = []")
    case True
    with Cons.prems s res have "\<not> truthy (NextMarker p)" and "w' = w1"
      by auto
    with True l show ?thesis
      by (subst fetch_step) (simp add: inputs_of_single)
  next
    case False
    with Cons.prems s res
    have t: "truthy (NextMarker p)" and a: "answers send bucket (NextMarker p) w1 ps w'"
      by auto
    show ?thesis
      by (subst fetch_step) (simp add: l t Cons.IH [OF a] inputs_of_Cons [OF False])
  qed
qed

lemma fetch_fails:
  "fails_after send bucket marker w pages err w' \<Longrightarrow>
   fetchBucketObjects send bucket marker objects w = Some (Inl err, w')"
proof (induction pages arbitrary: marker w objects)
  case Nil
  then show ?case by (subst fetch_step) simp
next
  case (Cons p ps)
  then show ?case
    by (subst fetch_step) (auto split: prod.splits sum.splits)
qed

lemma example_answers: "answers example_send ''photos'' None 0 example_pages 3"
  by (simp add: example_send_def example_pages_def truthy_def)

text \<open>
  C1. When the service answers a bucket with the pages \<open>pages\<close>, linked by their markers,
  \<open>fetchBucketObjects\<close> returns the objects of all pages, page after page and in the order
  within each page, so as many as the sizes of the pages add up to; it issues one call per
  page, the first without a marker and each later one with the \<open>NextMarker\<close> of the page
  before.
\<close>

theorem fetchBucketObjects_pages:
  assumes "answers send bucket None w pages w'"
  shows "fetchBucketObjects (logged send) bucket None [] (w, []) =
           Some (Inr (concat (map (\<lambda>p. contents_or_empty (Contents p)) pages)),
                 (w', map (\<lambda>m. \<lparr>Bucket = bucket, Marker = m\<rparr>)
                        (None # map NextMarker (butlast pages))))
         \<and> length (concat (map (\<lambda>p. contents_or_empty (Contents p)) pages))
             = sum_list (map (\<lambda>p. length (contents_or_empty (Contents p))) pages)
         \<and> length (map (\<lambda>m. \<lparr>Bucket = bucket, Marker = m\<rparr>)
                     (None # map NextMarker (butlast pages))) = length pages"
proof -
  from assms have "pages \<noteq> []"
    by (cases pages) auto
  then have "length (None # map NextMarker (butlast pages)) = length pages"
    by simp
  moreover have "length (concat (map (\<lambda>p. contents_or_empty (Contents p)) pages))
      = sum_list (map (\<lambda>p. length (contents_or_empty (Contents p))) pages)"
    by (simp add: length_concat comp_def)
  ultimately show ?thesis
    using fetch_answers [OF assms, of "[]" "[]"] by (simp add: inputs_of_def)
qed

theorem fetchBucketObjects_pages_witness:
  "answers example_send ''photos'' None 0 example_pages 3
   \<and> fetchBucketObjects (logged example_send) ''photos'' None [] (0, []) =
       Some (Inr [example_object ''a.png'' 0, example_object ''b.png'' 999600,
                  example_object ''c.png'' 1500000],
             (3, [\<lparr>Bucket = ''photos'', Marker = None\<rparr>,
                  \<lparr>Bucket = ''photos'', Marker = Some ''b.png''\<rparr>,
                  \<lparr>Bucket = ''photos'', Marker = Some ''b.zzz''\<rparr>]))"
  using fetchBucketObjects_pages [OF example_answers] example_answers
  by (simp add: example_pages_def contents_or_empty_def)

text \<open>
  C3. When a call of the sequence is rejected, after any number of pages, the whole call is
  rejected with that error, whatever objects were combined before: the result holds the
  error and no object.
\<close>

theorem fetchBucketObjects_rejects:
  assumes "fails_after send bucket marker w pages err w'"
  shows "fetchBucketObjects send bucket marker objects w = Some (Inl err, w')"
  using assms by (rule fetch_fails)

theorem fetchBucketObjects_rejects_witness:
  "fails_after example_send ''logs'' None 0
     [\<lparr>Contents = Some [example_object ''1.log'' 12], NextMarker = Some ''1.log''\<rparr>]
     example_error 2
   \<and> fetchBucketObjects example_send ''logs'' None [] 0 = Some (Inl example_error, 2)"
proof -
  have h: "fails_after example_send ''logs'' None 0
     [\<lparr>Contents = Some [example_object ''1.log'' 12], NextMarker = Some ''1.log''\<rparr>]
     example_error 2"
    by (simp add: example_send_def truthy_def)
  from fetchBucketObjects_rejects [OF h] h show ?thesis
    by simp
qed

text \<open>
  C8. When the first call is answered with no object and no marker, \<open>fetchBucketObjects\<close>
  returns the empty list, is not rejected, and has issued that one call.
\<close>

theorem fetchBucketObjects_empty_bucket:
  assumes "send \<lparr>Bucket = bucket, Marker = None\<rparr> w = (Inr out, w')"
    and "contents_or_empty (Contents out) = []"
    and "\<not> truthy (NextMarker out)"
  shows "fetchBucketObjects (logged send) bucket None [] (w, []) =
           Some (Inr [], (w', [\<lparr>Bucket = bucket, Marker = None\<rparr>]))"
  using assms by (subst fetch_step) (simp add: logged_step)

theorem fetchBucketObjects_empty_bucket_witness:
  "example_send \<lparr>Bucket = ''empty'', Marker = None\<rparr> 0
     = (Inr \<lparr>Contents = None, NextMarker = None\<rparr>, 1)
   \<and> fetchBucketObjects (logged example_send) ''empty'' None [] (0, []) =
       Some (Inr [], (1, [\<lparr>Bucket = ''empty'', Marker = None\<rparr>]))"
proof -
  have h: "example_send \<lparr>Bucket = ''empty'', Marker = None\<rparr> 0
     = (Inr \<lparr>Contents = None, NextMarker = None\<rparr>, 1)"
    by (simp add: example_send_def)
  from fetchBucketObjects_empty_bucket [where send = example_send and bucket = "''empty''" and w = 0, OF h]
    h show ?thesis
    by (simp add: contents_or_empty_def truthy_def)
qed

text \<open>
  C10. A page without \<open>Contents\<close> adds no object and does not reject the call: the objects
  combined so far are kept as they are, and the run goes on with the page's marker if it
  has one and returns them otherwise.
\<close>

theorem fetchBucketObjects_no_Contents:
  assumes "send \<lparr>Bucket = bucket, Marker = marker\<rparr> w = (Inr out, w')"
    and "Contents out = None"
  shows "fetchBucketObjects send bucket marker objects w =
           (if truthy (NextMarker out)
            then fetchBucketObjects send bucket (NextMarker out) objects w'
            else Some (Inr objects, w'))"
  using assms by (subst fetch_step) (simp add: contents_or_empty_def)

theorem fetchBucketObjects_no_Contents_witness:
  "example_send \<lparr>Bucket = ''photos'', Marker = Some ''b.png''\<rparr> 1
     = (Inr \<lparr>Contents = None, NextMarker = Some ''b.zzz''\<rparr>, 2)
   \<and> fetchBucketObjects example_send ''photos'' (Some ''b.png'') [example_object ''a.png'' 0] 1
       = fetchBucketObjects example_send ''photos'' (Some ''b.zzz'') [example_object ''a.png'' 0] 2"
proof -
  have h: "example_send \<lparr>Bucket = ''photos'', Marker = Some ''b.png''\<rparr> 1
     = (Inr \<lparr>Contents = None, NextMarker = Some ''b.zzz''\<rparr>, 2)"
    by (simp add: example_send_def example_pages_def)
  from fetchBucketObjects_no_Contents [where send = example_send and bucket = "''photos''"
      and marker = "Some ''b.png''" and w = 1, OF h] h
  show ?thesis
    by (simp add: truthy_def)
qed

subsection \<open>The list of objects on screen\<close>




text \<open>The two error views and an item of the list, on the example values.\<close>

lemma S3BucketObjects_example_redirect:
  "children (S3BucketObjects (Some ''eu-west-1'') \<lparr>Name = Some ''photos''\<rparr>
     \<lparr>data = None, error = Some example_redirect, isLoading = False\<rparr>)
   = [List_EmptyView ''Wrong region for bucket.''
        (''The photos cannot be accessed with your current region (eu-west-1).'' @ [CHR 0x0A]
         @ ''Hit `Enter` to open this bucket in the AWS Console.'')
        Icon_Globe
        [Action_OpenInBrowser ''Open in Browser''
           ''https://s3.console.aws.amazon.com/s3/buckets/photos'']]"
  by (simp add: S3BucketObjects_def isPermanentRedirectError_def example_redirect_def
      interpolate_def or_empty_def)

lemma S3BucketObjects_example_error:
  "children (S3BucketObjects (Some ''eu-west-1'') \<lparr>Name = Some ''logs''\<rparr>
     \<lparr>data = None, error = Some example_error, isLoading = False\<rparr>)
   = [List_EmptyView ''AccessDenied'' ''Access Denied'' Icon_Warning []]"
  by (simp add: S3BucketObjects_def isPermanentRedirectError_def example_error_def)

lemma humanFileSize_999600: "humanFileSize (Fin 999600) = ''1000 kB''"
  by code_simp

lemma S3BucketObjects_example_item:
  "children (S3BucketObjects (Some ''eu-west-1'') \<lparr>Name = Some ''photos''\<rparr>
     \<lparr>data = Some [example_object ''b.png'' 999600], error = None, isLoading = False\<rparr>)
   = [List_Item ''b.png'' Icon_Document ''b.png''
        [Action_OpenInBrowser ''Open in Browser''
           ''https://s3.console.aws.amazon.com/s3/object/photos?region=eu-west-1&prefix=b.png'',
         Action_SubmitForm ''Download'' ''photos'' ''b.png'',
         Action_CopyToClipboard ''Copy Key'' ''b.png'']
        ''1000 kB'']"
  using humanFileSize_999600
  by (simp add: S3BucketObjects_def example_object_def interpolate_def or_empty_def
      size_or_zero_def)

end
